theory Spec2Isabelle
  imports Complex_Main
begin

section \<open>Python values and failures\<close>

text \<open>
  The module \<^verbatim>\<open>mlx_lm/utils.py\<close> is embedded function by function. Every
  exception the Python can raise is a value \<open>Inl e\<close> of a sum type; a normal
  return is \<open>Inr v\<close>. Floating-point numbers are idealised as reals.
  \<^verbatim>\<open>JSONDecodeError\<close> is a subclass of \<^verbatim>\<open>ValueError\<close> in Python; no handler of
  the module catches either.
\<close>

datatype py_error =
    IndexError
  | AttributeError string
  | ValueError string
  | TypeError string
  | KeyError string
  | FileNotFoundError string
  | JSONDecodeError string
  | ExternalError string

text \<open>
  Indexing a sequence with a non-negative index, \<^verbatim>\<open>xs[i]\<close>: NumPy and
  Python raise \<^verbatim>\<open>IndexError\<close> when \<open>i\<close> is not below the length.
\<close>

definition getitem :: "'a list \<Rightarrow> nat \<Rightarrow> py_error + 'a" where
  "getitem xs i = (if i < length xs then Inr (xs ! i) else Inl IndexError)"

section \<open>The sampler\<close>

text \<open>
  \<^verbatim>\<open>mx.softmax\<close> over the whole array, in exact arithmetic.
\<close>

definition softmax :: "real list \<Rightarrow> real list" where
  "softmax xs = map (\<lambda>x. exp x / sum_list (map exp xs)) xs"

text \<open>
  \<^verbatim>\<open>np.argsort\<close>: the positions of the array in ascending order of their
  values. NumPy leaves the order of equal values open; the insertion sort
  used here keeps them in their original order. The general facts below use
  only that the result is a permutation of the positions in ascending order
  of value.
\<close>

definition argsort :: "real list \<Rightarrow> nat list" where
  "argsort xs = sort_key (\<lambda>i. xs ! i) [0..<length xs]"

text \<open>
  The widening loop of \<^verbatim>\<open>sample\<close>:
  \<^verbatim>\<open>
  while 1 - (np_logits[sorted_indices[j]] / t0) < cutoff and j < len(np_logits):
      j += 1
  \<close>
  The left operand of \<^verbatim>\<open>and\<close> is evaluated first, so both index
  operations happen before \<open>j\<close> is compared with the length. The divisor
  \<open>t0\<close> is an entry of a softmax and so positive (\<open>softmax_nth_pos\<close> below).
\<close>

function widen :: "real list \<Rightarrow> nat list \<Rightarrow> real \<Rightarrow> real \<Rightarrow> nat \<Rightarrow> py_error + nat" where
  "widen np_logits sorted_indices t0 cutoff j =
     (case getitem sorted_indices j of
        Inl e \<Rightarrow> Inl e
      | Inr k \<Rightarrow>
          (case getitem np_logits k of
             Inl e \<Rightarrow> Inl e
           | Inr p \<Rightarrow>
               if 1 - p / t0 < cutoff \<and> j < length np_logits
               then widen np_logits sorted_indices t0 cutoff (j + 1)
               else Inr j))"
  by pat_completeness auto
termination
  by (relation "measure (\<lambda>(np_logits, sorted_indices, t0, cutoff, j). length np_logits - j)") auto

text \<open>
  \<^verbatim>\<open>
  accepted_logits = []
  for i in range(0,j):
      accepted_logits.append(float(np_logits[sorted_indices[j]]))
  \<close>
  The loop variable \<open>i\<close> is not used in the body.
\<close>

fun accept_loop :: "real list \<Rightarrow> nat list \<Rightarrow> nat \<Rightarrow> nat list \<Rightarrow> real list \<Rightarrow> py_error + real list" where
  "accept_loop np_logits sorted_indices j [] accepted_logits = Inr accepted_logits"
| "accept_loop np_logits sorted_indices j (i # rest) accepted_logits =
     (case getitem sorted_indices j of
        Inl e \<Rightarrow> Inl e
      | Inr k \<Rightarrow>
          (case getitem np_logits k of
             Inl e \<Rightarrow> Inl e
           | Inr p \<Rightarrow> accept_loop np_logits sorted_indices j rest (accepted_logits @ [p])))"

text \<open>
  \<^verbatim>\<open>sample\<close>, the closure of \<^verbatim>\<open>generate_step\<close>, with its captured
  variable \<open>cutoff\<close> as an argument. The random generators are reseeded from
  the monotonic clock before every draw, so the draw is a function of that
  clock reading and of the accepted vector: \<open>categorical seed xs\<close> stands for
  \<^verbatim>\<open>mx.random.categorical(xs)\<close> after \<^verbatim>\<open>mx.random.seed(seed)\<close>. The result is
  the pair \<^verbatim>\<open>(t0, mx.array(np.array([c])))\<close>.
\<close>

definition sample ::
  "(nat \<Rightarrow> real list \<Rightarrow> nat) \<Rightarrow> nat \<Rightarrow> real \<Rightarrow> real list \<Rightarrow> py_error + (real \<times> int list)" where
  "sample categorical seed cutoff logits =
     (let np_logits = softmax logits;
          sorted_indices = rev (argsort np_logits)
      in case getitem sorted_indices 0 of
           Inl e \<Rightarrow> Inl e
         | Inr k0 \<Rightarrow>
       (case getitem np_logits k0 of
           Inl e \<Rightarrow> Inl e
         | Inr t0 \<Rightarrow>
       (case widen np_logits sorted_indices t0 cutoff 1 of
           Inl e \<Rightarrow> Inl e
         | Inr j \<Rightarrow>
       (case accept_loop np_logits sorted_indices j [0..<j] [] of
           Inl e \<Rightarrow> Inl e
         | Inr accepted_logits \<Rightarrow>
       (case getitem sorted_indices (categorical seed accepted_logits) of
           Inl e \<Rightarrow> Inl e
         | Inr c \<Rightarrow> Inr (t0, [int c]))))))"

section \<open>The generation loop\<close>

text \<open>
  The model is a capability of the caller: given the input tokens
  (\<^verbatim>\<open>y[None]\<close>, a batch of one) and the cache, it fails or returns the logits
  of every input position and the new cache.
\<close>

type_synonym 'c model = "int list \<Rightarrow> 'c option \<Rightarrow> py_error + (real list list \<times> 'c)"

text \<open>
  What the run does to its collaborators, in order: each call of the model
  with its input and cache, and each call of \<^verbatim>\<open>sample\<close> with its logits and
  the cutoff in force.
\<close>

datatype 'c event = ModelCall "int list" "'c option" | SampleCall "real list" real

text \<open>
  The suspended frame of the generator \<^verbatim>\<open>generate_step\<close>: its arguments
  \<open>model\<close> and \<open>cutoff\<close>, its locals \<open>y\<close> and \<open>cache\<close>, and the number of draws
  made so far (which reading of the clock seeds the next draw).
\<close>

record 'c generator =
  g_model :: "'c model"
  g_cutoff :: real
  g_y :: "int list"
  g_cache :: "'c option"
  g_draws :: nat

text \<open>
  Calling \<^verbatim>\<open>generate_step(prompt, model, cutoff)\<close> creates the generator and
  runs none of its body; \<open>cutoff\<close> is \<open>None\<close> when the caller leaves it out and
  the declared default \<open>7.0\<close> applies.
\<close>

definition generate_step :: "int list \<Rightarrow> 'c model \<Rightarrow> real option \<Rightarrow> 'c generator" where
  "generate_step prompt model cutoff =
     \<lparr>g_model = model,
      g_cutoff = (case cutoff of None \<Rightarrow> 7 | Some c \<Rightarrow> c),
      g_y = prompt, g_cache = None, g_draws = 0\<rparr>"

text \<open>\<^verbatim>\<open>logits[:, -1, :]\<close>: the logits of the last position.\<close>

definition last_position :: "real list list \<Rightarrow> py_error + real list" where
  "last_position logits = (if logits = [] then Inl IndexError else Inr (last logits))"

text \<open>
  One \<^verbatim>\<open>next()\<close> on the generator, that is one turn of
  \<^verbatim>\<open>
  while True:
      logits, cache = model(y[None], cache=cache)
      logits = logits[:, -1, :]
      t0,y = sample(logits)
      yield (t0,y)
  \<close>
  It returns the events of the turn and either the failure or the yielded
  pair with the frame as suspended at the \<^verbatim>\<open>yield\<close>.
\<close>

definition next_step ::
  "(nat \<Rightarrow> real list \<Rightarrow> nat) \<Rightarrow> (nat \<Rightarrow> nat) \<Rightarrow> 'c generator \<Rightarrow>
   'c event list \<times> (py_error + ((real \<times> int list) \<times> 'c generator))" where
  "next_step categorical clock g =
     (case g_model g (g_y g) (g_cache g) of
        Inl e \<Rightarrow> ([ModelCall (g_y g) (g_cache g)], Inl e)
      | Inr (logits, cache) \<Rightarrow>
          (case last_position logits of
             Inl e \<Rightarrow> ([ModelCall (g_y g) (g_cache g)], Inl e)
           | Inr row \<Rightarrow>
               ([ModelCall (g_y g) (g_cache g), SampleCall row (g_cutoff g)],
                case sample categorical (clock (g_draws g)) (g_cutoff g) row of
                  Inl e \<Rightarrow> Inl e
                | Inr (t0, y) \<Rightarrow>
                    Inr ((t0, y), g\<lparr>g_y := y, g_cache := Some cache, g_draws := g_draws g + 1\<rparr>))))"

text \<open>
  The first \<open>n\<close> turns of a generator, as far as they go: all events, and the
  pairs yielded.
\<close>

fun take_steps ::
  "(nat \<Rightarrow> real list \<Rightarrow> nat) \<Rightarrow> (nat \<Rightarrow> nat) \<Rightarrow> nat \<Rightarrow> 'c generator \<Rightarrow>
   'c event list \<times> (real \<times> int list) list" where
  "take_steps categorical clock 0 g = ([], [])"
| "take_steps categorical clock (Suc n) g =
     (case next_step categorical clock g of
        (evs, Inl e) \<Rightarrow> (evs, [])
      | (evs, Inr (item, g')) \<Rightarrow>
          (case take_steps categorical clock n g' of
             (evs', items) \<Rightarrow> (evs @ evs', item # items)))"

text \<open>The inputs of the model calls among some events, in order.\<close>

fun model_inputs :: "'c event list \<Rightarrow> (int list \<times> 'c option) list" where
  "model_inputs [] = []"
| "model_inputs (ModelCall y cache # evs) = (y, cache) # model_inputs evs"
| "model_inputs (SampleCall row cutoff # evs) = model_inputs evs"

text \<open>The cutoffs of the sampler calls among some events, in order.\<close>

fun sample_cutoffs :: "'c event list \<Rightarrow> real list" where
  "sample_cutoffs [] = []"
| "sample_cutoffs (ModelCall y cache # evs) = sample_cutoffs evs"
| "sample_cutoffs (SampleCall row cutoff # evs) = cutoff # sample_cutoffs evs"

section \<open>The driver\<close>

text \<open>
  The Python values that the driver's variable \<open>token\<close> can hold and that
  \<^verbatim>\<open>.item()\<close> can return.
\<close>

datatype pyval = PyInt int | PyFloat real | MxArray "int list" | PyTuple "pyval list"

text \<open>
  The truth value of \<^verbatim>\<open>token == n\<close> for an integer \<open>n\<close>, as an \<^verbatim>\<open>if\<close> takes
  it. A tuple and an integer never compare equal; an array compares
  elementwise and has a truth value only when it holds one element.
\<close>

fun eq_int :: "pyval \<Rightarrow> int \<Rightarrow> py_error + bool" where
  "eq_int (PyInt a) n = Inr (a = n)"
| "eq_int (PyFloat r) n = Inr (r = of_int n)"
| "eq_int (MxArray xs) n =
     (case xs of
        [x] \<Rightarrow> Inr (x = n)
      | _ \<Rightarrow> Inl (ValueError ''the truth value of an array with several elements is ambiguous''))"
| "eq_int (PyTuple vs) n = Inr False"

text \<open>\<^verbatim>\<open>token.item()\<close>: arrays and NumPy scalars have the method, tuples and integers do not.\<close>

fun item :: "pyval \<Rightarrow> py_error + pyval" where
  "item (MxArray xs) =
     (case xs of
        [x] \<Rightarrow> Inr (PyInt x)
      | _ \<Rightarrow> Inl (ValueError ''item can only convert an array of size 1''))"
| "item (PyFloat r) = Inr (PyFloat r)"
| "item (PyInt a) = Inl (AttributeError ''int object has no attribute item'')"
| "item (PyTuple vs) = Inl (AttributeError ''tuple object has no attribute item'')"

record tokenizer =
  encode :: "string \<Rightarrow> int list"
  decode :: "int list \<Rightarrow> string"
  eos_token_id :: int

text \<open>\<^verbatim>\<open>tokenizer.decode(tokens)\<close> on a Python list: the ids must be integers.\<close>

fun token_ids :: "pyval list \<Rightarrow> py_error + int list" where
  "token_ids [] = Inr []"
| "token_ids (PyInt a # vs) = (case token_ids vs of Inl e \<Rightarrow> Inl e | Inr ids \<Rightarrow> Inr (a # ids))"
| "token_ids (v # vs) = Inl (TypeError ''token ids must be integers'')"

definition decode_list :: "tokenizer \<Rightarrow> pyval list \<Rightarrow> py_error + string" where
  "decode_list tok tokens =
     (case token_ids tokens of Inl e \<Rightarrow> Inl e | Inr ids \<Rightarrow> Inr (decode tok ids))"

text \<open>The locals of \<^verbatim>\<open>generate\<close> that its loop changes, and the standard output.\<close>

record driver_state =
  d_tokens :: "pyval list"
  d_skip :: nat
  d_stdout :: string

text \<open>
  \<^verbatim>\<open>
  s = tokenizer.decode(tokens)
  print(s[skip:], end="", flush=True)
  skip = len(s)
  \<close>
\<close>

definition print_new_text :: "tokenizer \<Rightarrow> driver_state \<Rightarrow> py_error + driver_state" where
  "print_new_text tok st =
     (case decode_list tok (d_tokens st) of
        Inl e \<Rightarrow> Inl e
      | Inr s \<Rightarrow> Inr (st\<lparr>d_stdout := d_stdout st @ drop (d_skip st) s, d_skip := length s\<rparr>))"

text \<open>\<^verbatim>\<open>range(max_tokens)\<close>; empty when \<open>max_tokens\<close> is not positive.\<close>

definition py_range :: "int \<Rightarrow> int list" where
  "py_range n = map int [0..<nat n]"

text \<open>
  \<^verbatim>\<open>
  for token, _ in zip(generate_step(prompt, model, temp), range(max_tokens)):
      if token == tokenizer.eos_token_id:
          break
      tokens.append(token.item())
      if verbose: ...
  \<close>
  \<^verbatim>\<open>zip\<close> asks its first argument, the generator, for an element before it
  asks the range, so the generator runs one turn also when the range is
  exhausted. Unpacking the pair that \<^verbatim>\<open>zip\<close> makes binds \<open>token\<close> to the
  element of the generator, which is the tuple \<^verbatim>\<open>(t0, y)\<close>. The result is the
  events so far, the exception that ended the loop if one did, the driver's
  locals and the generator.
\<close>

fun for_loop ::
  "(nat \<Rightarrow> real list \<Rightarrow> nat) \<Rightarrow> (nat \<Rightarrow> nat) \<Rightarrow> tokenizer \<Rightarrow> bool \<Rightarrow> int list \<Rightarrow>
   'c generator \<Rightarrow> 'c event list \<Rightarrow> driver_state \<Rightarrow>
   'c event list \<times> py_error option \<times> driver_state \<times> 'c generator" where
  "for_loop categorical clock tok verbose [] g evs st =
     (case next_step categorical clock g of
        (evs', Inl e) \<Rightarrow> (evs @ evs', Some e, st, g)
      | (evs', Inr (yielded, g')) \<Rightarrow> (evs @ evs', None, st, g'))"
| "for_loop categorical clock tok verbose (i # rest) g evs st =
     (case next_step categorical clock g of
        (evs', Inl e) \<Rightarrow> (evs @ evs', Some e, st, g)
      | (evs', Inr ((t0, y), g')) \<Rightarrow>
          (let token = PyTuple [PyFloat t0, MxArray y] in
           case eq_int token (eos_token_id tok) of
             Inl e \<Rightarrow> (evs @ evs', Some e, st, g')
           | Inr stop \<Rightarrow>
               if stop then (evs @ evs', None, st, g')
               else
                 (case item token of
                    Inl e \<Rightarrow> (evs @ evs', Some e, st, g')
                  | Inr v \<Rightarrow>
                      (let st1 = st\<lparr>d_tokens := d_tokens st @ [v]\<rparr> in
                       if verbose then
                         (case print_new_text tok st1 of
                            Inl e \<Rightarrow> (evs @ evs', Some e, st1, g')
                          | Inr st2 \<Rightarrow>
                              for_loop categorical clock tok verbose rest g' (evs @ evs') st2)
                       else for_loop categorical clock tok verbose rest g' (evs @ evs') st1))))"

text \<open>
  What a call of \<^verbatim>\<open>generate\<close> leaves behind: the value returned or the
  exception raised, the standard output, the list \<open>tokens\<close> as it stood, and
  the events.
\<close>

record 'c outcome =
  returned :: "py_error + string"
  stdout :: string
  accumulated :: "pyval list"
  events :: "'c event list"

text \<open>
  \<^verbatim>\<open>generate\<close>; an argument is \<open>None\<close> when the caller leaves it out
  (\<^verbatim>\<open>temp=0.0\<close>, \<^verbatim>\<open>max_tokens=100\<close>, \<^verbatim>\<open>verbose=False\<close>).
\<close>

definition generate_run ::
  "(nat \<Rightarrow> real list \<Rightarrow> nat) \<Rightarrow> (nat \<Rightarrow> nat) \<Rightarrow> 'c model \<Rightarrow> tokenizer \<Rightarrow> string \<Rightarrow>
   real option \<Rightarrow> int option \<Rightarrow> bool option \<Rightarrow> 'c outcome" where
  "generate_run categorical clock model tok prompt temp max_tokens verbose =
     (let temp = (case temp of None \<Rightarrow> 0 | Some t \<Rightarrow> t);
          max_tokens = (case max_tokens of None \<Rightarrow> 100 | Some n \<Rightarrow> n);
          verbose = (case verbose of None \<Rightarrow> False | Some b \<Rightarrow> b);
          prompt = encode tok prompt
      in case for_loop categorical clock tok verbose (py_range max_tokens)
                (generate_step prompt model (Some temp)) []
                \<lparr>d_tokens = [], d_skip = 0, d_stdout = []\<rparr> of
           (evs, Some e, st, g) \<Rightarrow>
             \<lparr>returned = Inl e, stdout = d_stdout st, accumulated = d_tokens st, events = evs\<rparr>
         | (evs, None, st, g) \<Rightarrow>
             (case decode_list tok (d_tokens st) of
                Inl e \<Rightarrow>
                  \<lparr>returned = Inl e, stdout = d_stdout st, accumulated = d_tokens st, events = evs\<rparr>
              | Inr s \<Rightarrow>
                  \<lparr>returned = Inr (drop (d_skip st) s),
                   stdout = (if verbose then d_stdout st @ drop (d_skip st) s @ [CHR 0x0A]
                             else d_stdout st),
                   accumulated = d_tokens st, events = evs\<rparr>))"

definition generate ::
  "(nat \<Rightarrow> real list \<Rightarrow> nat) \<Rightarrow> (nat \<Rightarrow> nat) \<Rightarrow> 'c model \<Rightarrow> tokenizer \<Rightarrow> string \<Rightarrow>
   real option \<Rightarrow> int option \<Rightarrow> bool option \<Rightarrow> py_error + string" where
  "generate categorical clock model tok prompt temp max_tokens verbose =
     returned (generate_run categorical clock model tok prompt temp max_tokens verbose)"

section \<open>The loader\<close>

text \<open>A value read by \<^verbatim>\<open>json.load\<close>.\<close>

datatype jval =
    JNull
  | JBool bool
  | JNumber real
  | JString string
  | JArray "jval list"
  | JObject "(string \<times> jval) list"

text \<open>The modules \<^verbatim>\<open>llama\<close> and \<^verbatim>\<open>phi2\<close> of \<^verbatim>\<open>.models\<close>.\<close>

datatype arch = llama | phi2

definition MODEL_MAPPING :: "(string \<times> arch) list" where
  "MODEL_MAPPING = [(''llama'', llama), (''mistral'', llama), (''phi'', phi2)]"

text \<open>
  What the loader does to the outside, in order: the file system and network
  operations, and the messages given to \<^verbatim>\<open>logging.error\<close>.
\<close>

datatype io_event =
    Exists string
  | Download string
  | Open string
  | Glob string
  | LoadWeights string
  | Build
  | LogError string

text \<open>The message of the \<^verbatim>\<open>FileNotFoundError\<close> that \<^verbatim>\<open>open\<close> raises.\<close>

definition no_such_file :: "string \<Rightarrow> string" where
  "no_such_file path = ''[Errno 2] No such file or directory: '' @ path"

text \<open>
  The world outside the module: the file system, the hub, the array library
  and the model classes. \<open>json_files path\<close> is \<open>None\<close> when no file has that
  name, and otherwise what \<^verbatim>\<open>json.load\<close> makes of the file: the message of
  its \<^verbatim>\<open>JSONDecodeError\<close> or the value read; other failures of \<^verbatim>\<open>open\<close>
  (permissions, a directory under that name) are left out. \<open>build\<close> stands for everything
  \<^verbatim>\<open>load\<close> does after choosing the classes (\<^verbatim>\<open>from_dict\<close>, the model's
  constructor, quantisation, \<^verbatim>\<open>load_weights\<close>, \<^verbatim>\<open>mx.eval\<close> and
  \<^verbatim>\<open>AutoTokenizer.from_pretrained\<close>), and \<open>py_str\<close> for Python's \<^verbatim>\<open>str\<close> in a
  formatted message.
\<close>

record ('w, 'm) world =
  path_exists :: "string \<Rightarrow> bool"
  snapshot_download :: "string \<Rightarrow> py_error + string"
  json_files :: "string \<Rightarrow> (string + jval) option"
  glob :: "string \<Rightarrow> string list"
  mx_load :: "string \<Rightarrow> py_error + 'w"
  build :: "arch \<Rightarrow> (string \<times> jval) list \<Rightarrow> jval option \<Rightarrow> 'w list \<Rightarrow> string \<Rightarrow> py_error + 'm"
  py_str :: "jval \<Rightarrow> string"

text \<open>
  \<^verbatim>\<open>open(path, "r")\<close> followed by \<^verbatim>\<open>json.load\<close>: a missing file raises
  \<^verbatim>\<open>FileNotFoundError\<close>, a malformed one \<^verbatim>\<open>JSONDecodeError\<close>.
\<close>

definition open_json :: "('w, 'm) world \<Rightarrow> string \<Rightarrow> py_error + jval" where
  "open_json w path =
     (case json_files w path of
        None \<Rightarrow> Inl (FileNotFoundError (no_such_file path))
      | Some (Inl msg) \<Rightarrow> Inl (JSONDecodeError msg)
      | Some (Inr v) \<Rightarrow> Inr v)"

text \<open>Whether Python can hash a value read from JSON: lists and objects it cannot.\<close>

definition hashable :: "jval \<Rightarrow> bool" where
  "hashable v = (case v of JArray vs \<Rightarrow> False | JObject kvs \<Rightarrow> False | _ \<Rightarrow> True)"

text \<open>
  \<^verbatim>\<open>MODEL_MAPPING[model_type]\<close> for a hashable value, \<open>None\<close> when it is not a
  key: the keys are strings.
\<close>

definition lookup_arch :: "jval \<Rightarrow> arch option" where
  "lookup_arch v = (case v of JString s \<Rightarrow> map_of MODEL_MAPPING s | _ \<Rightarrow> None)"

text \<open>
  \<^verbatim>\<open>_get_classes\<close>. \<^verbatim>\<open>config["model_type"]\<close> raises \<^verbatim>\<open>KeyError\<close> without the
  key, and the membership test \<^verbatim>\<open>model_type not in MODEL_MAPPING\<close> hashes the
  value first.
\<close>

definition get_classes ::
  "('w, 'm) world \<Rightarrow> (string \<times> jval) list \<Rightarrow> io_event list \<times> (py_error + arch)" where
  "get_classes w config =
     (case map_of config ''model_type'' of
        None \<Rightarrow> ([], Inl (KeyError ''model_type''))
      | Some model_type \<Rightarrow>
          if \<not> hashable model_type then ([], Inl (TypeError ''unhashable type''))
          else
            (case lookup_arch model_type of
               None \<Rightarrow>
                 (let msg = ''Model type '' @ py_str w model_type @ '' not supported.''
                  in ([LogError msg], Inl (ValueError msg)))
             | Some arch \<Rightarrow> ([], Inr arch)))"




section \<open>Names for the statements\<close>

text \<open>The position of rank 0, \<^verbatim>\<open>sorted_indices[0]\<close>, for given logits.\<close>

definition top_index :: "real list \<Rightarrow> nat" where
  "top_index logits = rev (argsort (softmax logits)) ! 0"

section \<open>Stubs\<close>

text \<open>
  Collaborators for concrete runs: a draw that always picks position 0, a
  clock, a model whose logits peak at token 1 on the first call (no cache)
  and at token 2 on every later call, a tokenizer over character codes whose
  end-of-sequence id is 2, and a world whose only model directory is \<open>m\<close>.
\<close>

definition first_draw :: "nat \<Rightarrow> real list \<Rightarrow> nat" where
  "first_draw seed accepted_logits = 0"

definition ticks :: "nat \<Rightarrow> nat" where
  "ticks n = 1000 * n"

definition stub_model :: "unit model" where
  "stub_model y cache =
     Inr (map (\<lambda>t. case cache of None \<Rightarrow> [0, 5, 0] | Some c \<Rightarrow> [0, 0, 5]) y, ())"

definition stub_tokenizer :: tokenizer where
  "stub_tokenizer =
     \<lparr>encode = map (\<lambda>c. int (of_char c)), decode = map (\<lambda>i. char_of i), eos_token_id = 2\<rparr>"


section \<open>Facts about the sampler and the loops\<close>


lemma length_softmax [simp]: "length (softmax xs) = length xs"
  by (simp add: softmax_def)

lemma sum_exp_nonneg: "0 \<le> sum_list (map exp (xs :: real list))"
  by (induction xs) (simp_all add: add_nonneg_nonneg)

lemma sum_exp_pos: "xs \<noteq> [] \<Longrightarrow> 0 < sum_list (map exp (xs :: real list))"
  by (cases xs) (simp_all add: add_pos_nonneg sum_exp_nonneg)

lemma softmax_nth_pos: "i < length xs \<Longrightarrow> 0 < softmax xs ! i"
proof -
  assume i: "i < length xs"
  then have "xs \<noteq> []" by auto
  then have "0 < sum_list (map exp xs)" by (rule sum_exp_pos)
  with i show ?thesis by (simp add: softmax_def)
qed

lemma length_argsort [simp]: "length (argsort xs) = length xs"
  by (simp add: argsort_def)

lemma set_argsort [simp]: "set (argsort xs) = {0..<length xs}"
  by (simp add: argsort_def)

lemma distinct_argsort [simp]: "distinct (argsort xs)"
  by (simp add: argsort_def)

lemma sorted_argsort: "sorted (map (\<lambda>i. xs ! i) (argsort xs))"
  by (simp add: argsort_def)

lemma rev_argsort_nth_less: "k < length xs \<Longrightarrow> rev (argsort xs) ! k < length xs"
proof -
  assume "k < length xs"
  then have "rev (argsort xs) ! k \<in> set (rev (argsort xs))"
    by (intro nth_mem) simp
  then show ?thesis by simp
qed

lemma rev_argsort_head_max:
  assumes "i < length xs"
  shows "xs ! i \<le> xs ! (rev (argsort xs) ! 0)"
proof -
  let ?s = "argsort xs"
  have ne: "?s \<noteq> []" using assms by (metis length_argsort length_0_conv less_nat_zero_code)
  have i_in: "i \<in> set ?s" using assms by simp
  then obtain m where m: "m < length ?s" "?s ! m = i" unfolding in_set_conv_nth by blast
  have "rev ?s ! 0 = last ?s" using ne by (simp add: hd_rev flip: hd_conv_nth)
  also have "\<dots> = ?s ! (length ?s - 1)" using ne by (simp add: last_conv_nth)
  finally have top: "rev ?s ! 0 = ?s ! (length ?s - 1)" .
  have "map (\<lambda>i. xs ! i) ?s ! m \<le> map (\<lambda>i. xs ! i) ?s ! (length ?s - 1)"
    using sorted_argsort[of xs] m(1) by (intro sorted_nth_mono) auto
  then show ?thesis using m top by simp
qed

declare widen.simps [simp del]

lemma widen_bounds:
  "widen np s t0 c j = Inr j' \<Longrightarrow> j \<le> j' \<and> j' < length s \<and> s ! j' < length np"
proof (induction np s t0 c j rule: widen.induct)
  case (1 np s t0 c j)
  show ?case
  proof (cases "j < length s \<and> s ! j < length np")
    case False
    with "1.prems" show ?thesis
      by (subst (asm) widen.simps) (auto simp: getitem_def split: if_splits)
  next
    case True
    show ?thesis
    proof (cases "1 - np ! (s ! j) / t0 < c \<and> j < length np")
      case go: True
      from "1.prems" True go have "widen np s t0 c (j + 1) = Inr j'"
        by (subst (asm) widen.simps) (simp add: getitem_def)
      with "1.IH"[of "s ! j" "np ! (s ! j)"] True go show ?thesis
        by (auto simp: getitem_def)
    next
      case stop: False
      from "1.prems" True stop have "j' = j"
        by (subst (asm) widen.simps) (auto simp: getitem_def)
      with True show ?thesis by simp
    qed
  qed
qed

lemma widen_out_of_range: "length s \<le> j \<Longrightarrow> widen np s t0 c j = Inl IndexError"
  by (subst widen.simps) (simp add: getitem_def)

lemma widen_stop:
  "j < length s \<Longrightarrow> s ! j < length np \<Longrightarrow> \<not> 1 - np ! (s ! j) / t0 < c \<Longrightarrow>
   widen np s t0 c j = Inr j"
  by (subst widen.simps) (simp add: getitem_def)

lemma widen_step:
  "j < length s \<Longrightarrow> s ! j < length np \<Longrightarrow> 1 - np ! (s ! j) / t0 < c \<Longrightarrow> j < length np \<Longrightarrow>
   widen np s t0 c j = widen np s t0 c (j + 1)"
  by (subst widen.simps) (simp add: getitem_def)

lemma widen_all_within:
  assumes len: "length s = length np"
    and idx: "\<And>k. k < length s \<Longrightarrow> s ! k < length np"
    and within: "\<And>k. j \<le> k \<Longrightarrow> k < length s \<Longrightarrow> 1 - np ! (s ! k) / t0 < c"
  shows "widen np s t0 c j = Inl IndexError"
  using within
proof (induction "length s - j" arbitrary: j)
  case 0
  then show ?case by (simp add: widen_out_of_range)
next
  case (Suc d)
  then have j: "j < length s" by simp
  have "widen np s t0 c j = widen np s t0 c (j + 1)"
    using j idx[OF j] Suc.prems[of j] len by (intro widen_step) simp_all
  also have "\<dots> = Inl IndexError"
    using Suc.hyps(2) Suc.prems by (intro Suc.hyps(1)) simp_all
  finally show ?case .
qed

lemma accept_loop_replicate:
  "j < length s \<Longrightarrow> s ! j < length np \<Longrightarrow>
   accept_loop np s j is acc = Inr (acc @ replicate (length is) (np ! (s ! j)))"
  by (induction "is" arbitrary: acc) (simp_all add: getitem_def replicate_app_Cons_same)


lemma softmax_nth: "i < length xs \<Longrightarrow> softmax xs ! i = exp (xs ! i) / sum_list (map exp xs)"
  by (simp add: softmax_def)

lemma softmax_mono_iff:
  assumes "i < length xs" "k < length xs"
  shows "softmax xs ! i \<le> softmax xs ! k \<longleftrightarrow> xs ! i \<le> xs ! k"
proof -
  from assms have "xs \<noteq> []" by auto
  then have "0 < sum_list (map exp xs)" by (rule sum_exp_pos)
  with assms show ?thesis by (simp add: softmax_nth divide_le_cancel)
qed


lemma top_index_less: "logits \<noteq> [] \<Longrightarrow> top_index logits < length logits"
  using rev_argsort_nth_less[of 0 "softmax logits"] by (simp add: top_index_def)

lemma top_index_max:
  assumes "i < length logits"
  shows "logits ! i \<le> logits ! top_index logits"
proof -
  from assms have ne: "logits \<noteq> []" by auto
  have "softmax logits ! i \<le> softmax logits ! top_index logits"
    unfolding top_index_def using assms by (intro rev_argsort_head_max) simp
  then show ?thesis using assms top_index_less[OF ne] by (simp add: softmax_mono_iff)
qed

lemma argsort_eq_Nil [simp]: "argsort xs = [] \<longleftrightarrow> xs = []"
  using length_argsort[of xs] by (metis length_0_conv)

lemma softmax_eq_Nil [simp]: "softmax xs = [] \<longleftrightarrow> xs = []"
  by (simp add: softmax_def)

lemma sample_empty: "sample categorical seed cutoff [] = Inl IndexError"
  by (simp add: sample_def softmax_def argsort_def getitem_def)

lemma sample_prefix:
  assumes "logits \<noteq> []"
  shows "sample categorical seed cutoff logits =
    (case widen (softmax logits) (rev (argsort (softmax logits)))
            (softmax logits ! top_index logits) cutoff 1 of
       Inl e \<Rightarrow> Inl e
     | Inr j \<Rightarrow>
        (case accept_loop (softmax logits) (rev (argsort (softmax logits))) j [0..<j] [] of
           Inl e \<Rightarrow> Inl e
         | Inr accepted_logits \<Rightarrow>
            (case getitem (rev (argsort (softmax logits))) (categorical seed accepted_logits) of
               Inl e \<Rightarrow> Inl e
             | Inr c \<Rightarrow> Inr (softmax logits ! top_index logits, [int c]))))"
  using assms top_index_less[OF assms] unfolding top_index_def
  by (simp add: sample_def Let_def getitem_def)

lemma sample_single: "sample categorical seed cutoff [x] = Inl IndexError"
  by (simp add: sample_prefix widen_out_of_range)

lemma sample_length_one:
  "length logits = 1 \<Longrightarrow> sample categorical seed cutoff logits = Inl IndexError"
  by (cases logits) (simp_all add: sample_single)

lemma relative_drop_less_one:
  assumes "logits \<noteq> []" "k < length logits"
  shows "1 - softmax logits ! (rev (argsort (softmax logits)) ! k) / softmax logits ! top_index logits < 1"
proof -
  have a: "0 < softmax logits ! (rev (argsort (softmax logits)) ! k)"
    using rev_argsort_nth_less[of k "softmax logits"] assms by (intro softmax_nth_pos) simp
  have b: "0 < softmax logits ! top_index logits"
    using top_index_less[OF assms(1)] by (rule softmax_nth_pos)
  from a b show ?thesis by simp
qed

lemma relative_drop_nonneg:
  assumes "logits \<noteq> []" "k < length logits"
  shows "0 \<le> 1 - softmax logits ! (rev (argsort (softmax logits)) ! k) / softmax logits ! top_index logits"
proof -
  have b: "0 < softmax logits ! top_index logits"
    using top_index_less[OF assms(1)] by (rule softmax_nth_pos)
  have "softmax logits ! (rev (argsort (softmax logits)) ! k) \<le> softmax logits ! top_index logits"
    unfolding top_index_def
    using rev_argsort_nth_less[of k "softmax logits"] assms by (intro rev_argsort_head_max) simp
  with b show ?thesis by simp
qed

lemma sample_wide_cutoff:
  assumes "logits \<noteq> []" "1 < cutoff"
  shows "sample categorical seed cutoff logits = Inl IndexError"
proof -
  have "widen (softmax logits) (rev (argsort (softmax logits)))
          (softmax logits ! top_index logits) cutoff 1 = Inl IndexError"
  proof (rule widen_all_within)
    show "length (rev (argsort (softmax logits))) = length (softmax logits)" by simp
  next
    fix k assume "k < length (rev (argsort (softmax logits)))"
    then show "rev (argsort (softmax logits)) ! k < length (softmax logits)"
      using rev_argsort_nth_less[of k "softmax logits"] by simp
  next
    fix k assume "k < length (rev (argsort (softmax logits)))"
    then have "k < length logits" by simp
    from relative_drop_less_one[OF assms(1) this] assms(2)
    show "1 - softmax logits ! (rev (argsort (softmax logits)) ! k) / softmax logits ! top_index logits < cutoff"
      by simp
  qed
  then show ?thesis by (simp add: sample_prefix assms(1))
qed

lemma widen_zero_cutoff:
  assumes "2 \<le> length logits" "cutoff \<le> 0"
  shows "widen (softmax logits) (rev (argsort (softmax logits)))
          (softmax logits ! top_index logits) cutoff 1 = Inr 1"
proof -
  from assms(1) have ne: "logits \<noteq> []" and one: "1 < length logits" by auto
  have "\<not> 1 - softmax logits ! (rev (argsort (softmax logits)) ! 1) / softmax logits ! top_index logits < cutoff"
    using relative_drop_nonneg[OF ne one] assms(2) by simp
  then show ?thesis
    using one rev_argsort_nth_less[of 1 "softmax logits"] by (intro widen_stop) simp_all
qed

lemma sample_zero_cutoff:
  assumes "2 \<le> length logits" "cutoff \<le> 0"
  shows "sample categorical seed cutoff logits =
    (case getitem (rev (argsort (softmax logits)))
            (categorical seed [softmax logits ! (rev (argsort (softmax logits)) ! 1)]) of
       Inl e \<Rightarrow> Inl e
     | Inr c \<Rightarrow> Inr (softmax logits ! top_index logits, [int c]))"
proof -
  from assms(1) have ne: "logits \<noteq> []" and one: "1 < length logits" by auto
  have acc: "accept_loop (softmax logits) (rev (argsort (softmax logits))) 1 [0..<1] [] =
      Inr [softmax logits ! (rev (argsort (softmax logits)) ! 1)]"
    using one rev_argsort_nth_less[of 1 "softmax logits"]
    by (subst accept_loop_replicate) simp_all
  show ?thesis
    using widen_zero_cutoff[OF assms] acc by (simp add: sample_prefix[OF ne])
qed


lemma top_index_unique:
  assumes "c < length logits" "\<And>i. i < length logits \<Longrightarrow> i \<noteq> c \<Longrightarrow> logits ! i < logits ! c"
  shows "top_index logits = c"
proof (rule ccontr)
  assume ne: "top_index logits \<noteq> c"
  from assms(1) have "logits \<noteq> []" by auto
  then have "top_index logits < length logits" by (rule top_index_less)
  from assms(2)[OF this ne] top_index_max[OF assms(1)] show False by simp
qed

lemma sample_zero_cutoff_first:
  assumes "2 \<le> length logits" "cutoff \<le> 0"
    and "categorical seed [softmax logits ! (rev (argsort (softmax logits)) ! 1)] = 0"
  shows "sample categorical seed cutoff logits =
           Inr (softmax logits ! top_index logits, [int (top_index logits)])"
proof -
  from assms(1) have "logits \<noteq> []" by auto
  then have "getitem (rev (argsort (softmax logits))) 0 = Inr (top_index logits)"
    by (simp add: getitem_def top_index_def)
  with assms(3) show ?thesis by (simp add: sample_zero_cutoff[OF assms(1,2)])
qed

lemma sample_returns:
  assumes "sample categorical seed cutoff logits = Inr (t0, y)"
  shows "\<exists>c < length logits. y = [int c]"
proof -
  from assms have ne: "logits \<noteq> []" by (auto simp: sample_empty)
  from assms show ?thesis
    unfolding sample_prefix[OF ne]
    using rev_argsort_nth_less[of _ "softmax logits"]
    by (auto simp: getitem_def split: sum.splits if_splits)
qed

lemma generator_fields [simp]:
  "g_model (generate_step prompt model cutoff) = model"
  "g_y (generate_step prompt model cutoff) = prompt"
  "g_cache (generate_step prompt model cutoff) = None"
  "g_draws (generate_step prompt model cutoff) = 0"
  "g_cutoff (generate_step prompt model (Some c)) = c"
  "g_cutoff (generate_step prompt model None) = 7"
  by (simp_all add: generate_step_def)

lemma next_step_yield:
  assumes "next_step categorical clock g = (evs, Inr ((t0, y), g'))"
  shows "\<exists>logits cache row c.
           g_model g (g_y g) (g_cache g) = Inr (logits, cache) \<and>
           last_position logits = Inr row \<and>
           sample categorical (clock (g_draws g)) (g_cutoff g) row = Inr (t0, y) \<and>
           y = [int c] \<and> c < length row \<and>
           evs = [ModelCall (g_y g) (g_cache g), SampleCall row (g_cutoff g)] \<and>
           g' = g\<lparr>g_y := y, g_cache := Some cache, g_draws := g_draws g + 1\<rparr>"
  using assms sample_returns
  by (fastforce simp: next_step_def split: sum.splits prod.splits)

lemma next_step_fail:
  assumes "next_step categorical clock g = (evs, Inl e)"
  shows "model_inputs evs = [(g_y g, g_cache g)] \<and> set (sample_cutoffs evs) \<subseteq> {g_cutoff g}"
  using assms by (auto simp: next_step_def split: sum.splits prod.splits)


lemma model_inputs_append [simp]: "model_inputs (xs @ ys) = model_inputs xs @ model_inputs ys"
  by (induction xs rule: model_inputs.induct) simp_all

lemma sample_cutoffs_append [simp]: "sample_cutoffs (xs @ ys) = sample_cutoffs xs @ sample_cutoffs ys"
  by (induction xs rule: sample_cutoffs.induct) simp_all

lemma take_steps_inputs:
  assumes "take_steps categorical clock n g = (evs, items)"
  shows "length items \<le> length (model_inputs evs) \<and> length (model_inputs evs) \<le> n \<and>
         (0 < n \<longrightarrow> model_inputs evs \<noteq> [] \<and> model_inputs evs ! 0 = (g_y g, g_cache g)) \<and>
         (\<forall>k. Suc k < length (model_inputs evs) \<longrightarrow>
            k < length items \<and>
            length (snd (items ! k)) = 1 \<and>
            fst (model_inputs evs ! Suc k) = snd (items ! k) \<and>
            (\<exists>logits cache.
               g_model g (fst (model_inputs evs ! k)) (snd (model_inputs evs ! k)) = Inr (logits, cache) \<and>
               snd (model_inputs evs ! Suc k) = Some cache))"
  using assms
proof (induction n arbitrary: g evs items)
  case 0
  then show ?case by simp
next
  case (Suc n)
  obtain evs1 r where step: "next_step categorical clock g = (evs1, r)" by (cases "next_step categorical clock g")
  show ?case
  proof (cases r)
    case (Inl e)
    with Suc.prems step have "evs = evs1" "items = []" by simp_all
    with next_step_fail[of categorical clock g evs1 e] step Inl show ?thesis by simp
  next
    case (Inr yielded)
    obtain t0 y g' where yielded: "yielded = ((t0, y), g')" by (metis prod.exhaust)
    obtain evs2 items2 where rest: "take_steps categorical clock n g' = (evs2, items2)"
      by (cases "take_steps categorical clock n g'")
    from Suc.prems step Inr yielded rest have evs: "evs = evs1 @ evs2" and items: "items = (t0, y) # items2"
      by simp_all
    from next_step_yield[of categorical clock g evs1 t0 y g'] step Inr yielded
    obtain logits cache row c where
      m: "g_model g (g_y g) (g_cache g) = Inr (logits, cache)" and
      y: "y = [int c]" and
      evs1: "evs1 = [ModelCall (g_y g) (g_cache g), SampleCall row (g_cutoff g)]" and
      g': "g' = g\<lparr>g_y := y, g_cache := Some cache, g_draws := g_draws g + 1\<rparr>"
      by auto
    note IH = Suc.IH[OF rest]
    have inputs: "model_inputs evs = (g_y g, g_cache g) # model_inputs evs2"
      by (simp add: evs evs1)
    have gm: "g_model g' = g_model g" by (simp add: g')
    show ?thesis
    proof (intro conjI allI impI)
      show "length items \<le> length (model_inputs evs)" using IH by (simp add: inputs items)
      show "length (model_inputs evs) \<le> Suc n" using IH by (simp add: inputs)
      show "model_inputs evs \<noteq> []" by (simp add: inputs)
      show "model_inputs evs ! 0 = (g_y g, g_cache g)" by (simp add: inputs)
    next
      fix k assume k: "Suc k < length (model_inputs evs)"
      then have k2: "k < length (model_inputs evs2)" by (simp add: inputs)
      then have npos: "0 < n" using IH by auto
      show "k < length items"
      proof (cases k)
        case 0 then show ?thesis by (simp add: items)
      next
        case (Suc j) with IH k2 show ?thesis by (simp add: items)
      qed
      show "length (snd (items ! k)) = 1"
      proof (cases k)
        case 0 then show ?thesis by (simp add: items y)
      next
        case (Suc j) with IH k2 show ?thesis by (simp add: items)
      qed
      show "fst (model_inputs evs ! Suc k) = snd (items ! k)"
      proof (cases k)
        case 0 with IH npos show ?thesis by (simp add: items inputs g')
      next
        case (Suc j) with IH k2 show ?thesis by (simp add: items inputs)
      qed
      show "\<exists>logits cache.
               g_model g (fst (model_inputs evs ! k)) (snd (model_inputs evs ! k)) = Inr (logits, cache) \<and>
               snd (model_inputs evs ! Suc k) = Some cache"
      proof (cases k)
        case 0 with IH npos m show ?thesis by (simp add: inputs g')
      next
        case (Suc j) with IH k2 gm show ?thesis by (simp add: inputs)
      qed
    qed
  qed
qed






lemma for_loop_step_fails:
  "next_step categorical clock g = (evs', Inl e) \<Longrightarrow>
   for_loop categorical clock tok verbose items g evs st = (evs @ evs', Some e, st, g)"
  by (cases items) simp_all

lemma for_loop_body_fails:
  "next_step categorical clock g = (evs', Inr ((t0, y), g')) \<Longrightarrow>
   for_loop categorical clock tok verbose (i # rest) g evs st =
     (evs @ evs', Some (AttributeError ''tuple object has no attribute item''), st, g')"
  by simp

lemma py_range_pos: "1 \<le> n \<Longrightarrow> py_range n = 0 # map int [1..<nat n]"
  by (simp add: py_range_def upt_conv_Cons)

lemma for_loop_cutoffs:
  "for_loop categorical clock tok verbose items g evs st = (evs', err, st', g') \<Longrightarrow>
   set (sample_cutoffs evs) \<subseteq> {g_cutoff g} \<Longrightarrow> set (sample_cutoffs evs') \<subseteq> {g_cutoff g}"
proof (cases "next_step categorical clock g")
  case (Pair evs1 r)
  assume run: "for_loop categorical clock tok verbose items g evs st = (evs', err, st', g')"
    and inv: "set (sample_cutoffs evs) \<subseteq> {g_cutoff g}"
  show ?thesis
  proof (cases r)
    case (Inl e)
    with Pair run have "evs' = evs @ evs1" by (simp add: for_loop_step_fails)
    with next_step_fail[of categorical clock g evs1 e] Pair Inl inv show ?thesis by auto
  next
    case (Inr yielded)
    obtain t0 y g1 where yielded: "yielded = ((t0, y), g1)" by (metis prod.exhaust)
    from next_step_yield[of categorical clock g evs1 t0 y g1] Pair Inr yielded
    have c1: "sample_cutoffs evs1 = [g_cutoff g]" by auto
    from Pair Inr yielded run have "evs' = evs @ evs1" by (cases items) auto
    with c1 inv show ?thesis by auto
  qed
qed

lemma generate_run_events_cutoffs:
  "set (sample_cutoffs (events (generate_run categorical clock model tok prompt temp max_tokens verbose)))
     \<subseteq> {case temp of None \<Rightarrow> 0 | Some t \<Rightarrow> t}"
proof -
  let ?t = "case temp of None \<Rightarrow> 0 | Some t \<Rightarrow> t"
  let ?g = "generate_step (encode tok prompt) model (Some ?t)"
  let ?run = "for_loop categorical clock tok (case verbose of None \<Rightarrow> False | Some b \<Rightarrow> b)
     (py_range (case max_tokens of None \<Rightarrow> 100 | Some n \<Rightarrow> n)) ?g []
     \<lparr>d_tokens = [], d_skip = 0, d_stdout = []\<rparr>"
  obtain evs err st g' where run: "?run = (evs, err, st, g')" by (metis prod.exhaust)
  from for_loop_cutoffs[OF run] have "set (sample_cutoffs evs) \<subseteq> {?t}" by simp
  moreover have "events (generate_run categorical clock model tok prompt temp max_tokens verbose) = evs"
    using run by (simp add: generate_run_def Let_def split: option.splits sum.splits)
  ultimately show ?thesis by simp
qed

lemma generate_run_body_fails:
  assumes "1 \<le> (case max_tokens of None \<Rightarrow> 100 | Some n \<Rightarrow> n)"
    and "next_step categorical clock
           (generate_step (encode tok prompt) model (Some (case temp of None \<Rightarrow> 0 | Some t \<Rightarrow> t)))
         = (evs, Inr ((t0, y), g'))"
  shows "generate_run categorical clock model tok prompt temp max_tokens verbose =
    \<lparr>returned = Inl (AttributeError ''tuple object has no attribute item''),
     stdout = [], accumulated = [], events = evs\<rparr>"
  using assms(2) by (simp add: generate_run_def Let_def py_range_pos[OF assms(1)])

lemma generate_run_raises:
  assumes "1 \<le> (case max_tokens of None \<Rightarrow> 100 | Some n \<Rightarrow> n)"
  shows "\<exists>e. returned (generate_run categorical clock model tok prompt temp max_tokens verbose) = Inl e"
proof -
  let ?g = "generate_step (encode tok prompt) model (Some (case temp of None \<Rightarrow> 0 | Some t \<Rightarrow> t))"
  obtain evs r where step: "next_step categorical clock ?g = (evs, r)" by (metis prod.exhaust)
  show ?thesis
  proof (cases r)
    case (Inl e)
    with step show ?thesis by (simp add: generate_run_def Let_def for_loop_step_fails)
  next
    case (Inr yielded)
    obtain t0 y g' where "yielded = ((t0, y), g')" by (metis prod.exhaust)
    with Inr step generate_run_body_fails[OF assms, of categorical clock tok prompt model temp evs t0 y g' verbose]
    show ?thesis by simp
  qed
qed


lemma top_index_stub_first: "top_index [0, 5, 0] = 1"
  by (rule top_index_unique) (auto simp: less_Suc_eq numeral_3_eq_3 nth_Cons')

lemma top_index_stub_later: "top_index [0, 0, 5] = 2"
  by (rule top_index_unique) (auto simp: less_Suc_eq numeral_3_eq_3 nth_Cons')

lemma sample_stub_first:
  "sample first_draw seed 0 [0, 5, 0] = Inr (softmax [0, 5, 0] ! 1, [1])"
  using sample_zero_cutoff_first[of "[0, 5, 0]" 0 first_draw seed]
  by (simp add: first_draw_def top_index_stub_first)

lemma sample_stub_later:
  "sample first_draw seed 0 [0, 0, 5] = Inr (softmax [0, 0, 5] ! 2, [2])"
  using sample_zero_cutoff_first[of "[0, 0, 5]" 0 first_draw seed]
  by (simp add: first_draw_def top_index_stub_later)

lemma next_step_stub_first:
  "next_step first_draw ticks (generate_step (p # ps) stub_model (Some 0)) =
     ([ModelCall (p # ps) None, SampleCall [0, 5, 0] 0],
      Inr ((softmax [0, 5, 0] ! 1, [1]),
           \<lparr>g_model = stub_model, g_cutoff = 0, g_y = [1], g_cache = Some (), g_draws = 1\<rparr>))"
proof -
  have row: "last_position (map (\<lambda>t. [0, 5, 0 :: real]) (p # ps)) = Inr [0, 5, 0]"
    unfolding last_position_def by (simp add: last_map del: list.map)
  show ?thesis
    unfolding next_step_def generate_step_def stub_model_def
    by (simp add: row sample_stub_first del: list.map)
qed

lemma next_step_stub_later:
  "next_step first_draw ticks
     \<lparr>g_model = stub_model, g_cutoff = 0, g_y = [t], g_cache = Some (), g_draws = n\<rparr> =
     ([ModelCall [t] (Some ()), SampleCall [0, 0, 5] 0],
      Inr ((softmax [0, 0, 5] ! 2, [2]),
           \<lparr>g_model = stub_model, g_cutoff = 0, g_y = [2], g_cache = Some (), g_draws = n + 1\<rparr>))"
  by (simp add: next_step_def stub_model_def last_position_def sample_stub_later)

lemma take_steps_stub:
  "take_steps first_draw ticks 2 (generate_step [7, 8, 9] stub_model (Some 0)) =
     ([ModelCall [7, 8, 9] None, SampleCall [0, 5, 0] 0,
       ModelCall [1] (Some ()), SampleCall [0, 0, 5] 0],
      [(softmax [0, 5, 0] ! 1, [1]), (softmax [0, 0, 5] ! 2, [2])])"
  by (simp add: numeral_2_eq_2 next_step_stub_first next_step_stub_later)

lemma generate_run_stub:
  "generate_run first_draw ticks stub_model stub_tokenizer ''Hello'' None (Some 10) None =
     \<lparr>returned = Inl (AttributeError ''tuple object has no attribute item''),
      stdout = [], accumulated = [],
      events = [ModelCall [72, 101, 108, 108, 111] None, SampleCall [0, 5, 0] 0]\<rparr>"
proof -
  have enc: "encode stub_tokenizer ''Hello'' = [72, 101, 108, 108, 111]"
    by (simp add: stub_tokenizer_def)
  show ?thesis
    by (rule generate_run_body_fails) (simp_all add: enc next_step_stub_first)
qed



lemma top_index_example: "top_index [0.1, 5, 0.2] = 1"
  by (rule top_index_unique) (auto simp: less_Suc_eq numeral_3_eq_3 nth_Cons')

section \<open>The claims about the sampler\<close>

text \<open>
  Claim C1 says that for every logits vector and every cutoff the sampler
  returns, without raising, an index below the vocabulary size. With the
  cutoff \<open>7.0\<close> that \<^verbatim>\<open>generate_step\<close> declares as its default and the logits
  \<open>[0.1, 5.0, 0.2]\<close>, every rank is within the cutoff, \<open>j\<close> reaches 3 and the
  next test of the loop reads \<^verbatim>\<open>sorted_indices[3]\<close>: the sampler raises
  \<^verbatim>\<open>IndexError\<close> whatever the draw would have been.
\<close>

theorem sample_default_cutoff_raises:
  "sample categorical seed 7 [0.1, 5, 0.2] = Inl IndexError"
  by (rule sample_wide_cutoff) simp_all

text \<open>
  Claim C4 says that for a vocabulary of size 1 the sampler reads nothing out
  of range, raises nothing and returns the single index. The loop test reads
  \<^verbatim>\<open>sorted_indices[1]\<close> before it compares \<open>j\<close> with the length, so for every
  one-element logits vector, every cutoff and every draw the sampler raises
  \<^verbatim>\<open>IndexError\<close>.
\<close>

theorem sample_vocabulary_of_one_raises:
  "sample categorical seed cutoff [x] = Inl IndexError"
  by (rule sample_single)

text \<open>
  Claim C5 says that with a cutoff at or above the largest possible relative
  drop (such as \<open>1e9\<close>) the loop ends with \<open>j\<close> equal to the vocabulary size.
  No relative drop exceeds 1, so with any cutoff above 1 the loop goes on
  until it reads \<^verbatim>\<open>sorted_indices[len]\<close>: on every non-empty logits vector
  the sampler raises \<^verbatim>\<open>IndexError\<close>.
\<close>

theorem sample_wide_cutoff_raises:
  "logits \<noteq> [] \<Longrightarrow> 1 < cutoff \<Longrightarrow> sample categorical seed cutoff logits = Inl IndexError"
  by (rule sample_wide_cutoff)

theorem sample_wide_cutoff_raises_witness:
  "[0.1, 5, 0.2 :: real] \<noteq> [] \<and> (1 :: real) < 1000000000 \<and>
   sample first_draw 0 1000000000 [0.1, 5, 0.2] = Inl IndexError"
  using sample_wide_cutoff_raises[of "[0.1, 5, 0.2]" 1000000000 first_draw 0] by simp

text \<open>
  Claim C6 says that for every logits vector and cutoff 0 the accepted set
  keeps size 1 and the sampler returns the top-ranked index. On the one-element
  vector \<open>[5.0]\<close> the sampler raises \<^verbatim>\<open>IndexError\<close> instead; on the example of
  the claim, \<open>[0.1, 5.0, 0.2]\<close>, it returns index 1 with the top probability.
\<close>

theorem sample_zero_cutoff_examples:
  "sample categorical seed 0 [5] = Inl IndexError \<and>
   sample first_draw seed 0 [0.1, 5, 0.2] = Inr (softmax [0.1, 5, 0.2] ! 1, [1])"
  using sample_zero_cutoff_first[of "[0.1, 5, 0.2]" 0 first_draw seed]
  by (simp add: sample_single first_draw_def top_index_example[simplified])




lemma insort_key_order_cong:
  "(\<And>y. y \<in> set ys \<Longrightarrow> (f x \<le> f y) = (g x \<le> g y)) \<Longrightarrow>
   insort_key f x ys = insort_key g x (ys :: 'a list)"
  for f g :: "'a \<Rightarrow> real"
  by (induction ys) simp_all

lemma sort_key_order_cong:
  "(\<And>x y. x \<in> set xs \<Longrightarrow> y \<in> set xs \<Longrightarrow> (f x \<le> f y) = (g x \<le> g y)) \<Longrightarrow>
   sort_key f xs = sort_key g (xs :: 'a list)"
  for f g :: "'a \<Rightarrow> real"
proof (induction xs)
  case Nil
  then show ?case by simp
next
  case (Cons a xs)
  have "sort_key f xs = sort_key g xs" using Cons.prems by (intro Cons.IH) simp_all
  moreover have "insort_key f a (sort_key g xs) = insort_key g a (sort_key g xs)"
    using Cons.prems by (intro insort_key_order_cong) simp_all
  ultimately show ?case by simp
qed

lemma argsort_softmax: "argsort (softmax xs) = argsort xs"
  unfolding argsort_def length_softmax
  by (rule sort_key_order_cong) (simp add: softmax_mono_iff)

lemma softmax_ratio:
  assumes "i < length xs" "k < length xs"
  shows "softmax xs ! i / softmax xs ! k = exp (xs ! i - xs ! k)"
proof -
  from assms have "xs \<noteq> []" by auto
  then have "0 < sum_list (map exp xs)" by (rule sum_exp_pos)
  with assms show ?thesis by (simp add: softmax_nth exp_diff)
qed

lemma ranking_example: "rev (argsort (softmax [0, - (1 / 10), - 2])) = [0, 1, 2]"
  by (subst argsort_softmax) (simp add: argsort_def upt_rec numeral_3_eq_3)

lemma exp_bounds_example: "1 - exp (- (1 / 10) :: real) < 1 / 2" "\<not> 1 - exp (- 2 :: real) < 1 / 2"
proof -
  have "1 + (- (1 / 10)) \<le> exp (- (1 / 10) :: real)" by (rule exp_ge_add_one_self)
  then show "1 - exp (- (1 / 10) :: real) < 1 / 2" by simp
  have "1 + 2 \<le> exp (2 :: real)" by (rule exp_ge_add_one_self)
  then have "exp (- 2 :: real) \<le> 1 / 3"
    by (simp add: exp_minus field_simps)
  then show "\<not> 1 - exp (- 2 :: real) < 1 / 2" by simp
qed

lemma widen_example:
  "widen (softmax [0, - (1 / 10), - 2]) [0, 1, 2] (softmax [0, - (1 / 10), - 2] ! 0) (1 / 2) 1 = Inr 2"
proof -
  let ?np = "softmax [0, - (1 / 10), - 2]"
  have r1: "?np ! 1 / ?np ! 0 = exp (- (1 / 10))"
    using softmax_ratio[of 1 "[0, - (1 / 10), - 2]" 0] by simp
  have r2: "?np ! 2 / ?np ! 0 = exp (- 2)"
    using softmax_ratio[of 2 "[0, - (1 / 10), - 2]" 0] by simp
  have i1: "[0, 1, 2 :: nat] ! 1 = 1" and i2: "[0, 1, 2 :: nat] ! 2 = 2" by simp_all
  have d1: "1 - ?np ! ([0, 1, 2] ! 1) / ?np ! 0 < 1 / 2"
    unfolding i1 r1 by (rule exp_bounds_example(1))
  have d2: "\<not> 1 - ?np ! ([0, 1, 2] ! 2) / ?np ! 0 < 1 / 2"
    unfolding i2 r2 by (rule exp_bounds_example(2))
  have s2: "widen ?np [0, 1, 2] (?np ! 0) (1 / 2) 2 = Inr 2"
    by (rule widen_stop[OF _ _ d2]) simp_all
  have "widen ?np [0, 1, 2] (?np ! 0) (1 / 2) 1 = widen ?np [0, 1, 2] (?np ! 0) (1 / 2) (1 + 1)"
    by (rule widen_step[OF _ _ d1]) simp_all
  then show ?thesis using s2 by (simp only: one_add_one)
qed

text \<open>
  Claim C7: whenever the widening loop stops at the boundary rank \<open>j\<close>, the
  accepted vector has exactly \<open>j\<close> entries, each of them the softmax
  probability of the rank-\<open>j\<close> token (not of the rank of its own position),
  and the categorical draw is taken over that vector: the sampler returns
  the top probability and the index ranked at the drawn position, or fails
  when the draw is not a position of the ranking. Such a \<open>j\<close> is at least 1
  and below the vocabulary size.
\<close>

theorem accepted_vector_is_boundary_probability:
  fixes logits :: "real list"
  defines "np_logits \<equiv> softmax logits"
    and "sorted_indices \<equiv> rev (argsort (softmax logits))"
  assumes "widen np_logits sorted_indices (np_logits ! (sorted_indices ! 0)) cutoff 1 = Inr j"
  shows "1 \<le> j \<and> j < length logits \<and>
         accept_loop np_logits sorted_indices j [0..<j] [] =
           Inr (replicate j (np_logits ! (sorted_indices ! j))) \<and>
         sample categorical seed cutoff logits =
           (case getitem sorted_indices
                   (categorical seed (replicate j (np_logits ! (sorted_indices ! j)))) of
              Inl e \<Rightarrow> Inl e
            | Inr c \<Rightarrow> Inr (np_logits ! (sorted_indices ! 0), [int c]))"
proof -
  from widen_bounds[OF assms(3)]
  have j: "1 \<le> j" "j < length sorted_indices" "sorted_indices ! j < length np_logits" by simp_all
  then have len: "j < length logits" by (simp add: sorted_indices_def)
  then have ne: "logits \<noteq> []" by auto
  have acc: "accept_loop np_logits sorted_indices j [0..<j] [] =
      Inr (replicate j (np_logits ! (sorted_indices ! j)))"
    using j by (simp add: accept_loop_replicate)
  have "sample categorical seed cutoff logits =
           (case getitem sorted_indices
                   (categorical seed (replicate j (np_logits ! (sorted_indices ! j)))) of
              Inl e \<Rightarrow> Inl e
            | Inr c \<Rightarrow> Inr (np_logits ! (sorted_indices ! 0), [int c]))"
    using assms(3) acc unfolding sample_prefix[OF ne] np_logits_def sorted_indices_def top_index_def
    by simp
  with j(1) len acc show ?thesis by simp
qed

theorem accepted_vector_is_boundary_probability_witness:
  "widen (softmax [0, - (1 / 10), - 2]) (rev (argsort (softmax [0, - (1 / 10), - 2])))
     (softmax [0, - (1 / 10), - 2] ! (rev (argsort (softmax [0, - (1 / 10), - 2])) ! 0)) (1 / 2) 1 = Inr 2 \<and>
   accept_loop (softmax [0, - (1 / 10), - 2]) (rev (argsort (softmax [0, - (1 / 10), - 2]))) 2 [0..<2] [] =
     Inr [softmax [0, - (1 / 10), - 2] ! 2, softmax [0, - (1 / 10), - 2] ! 2] \<and>
   sample first_draw 0 (1 / 2) [0, - (1 / 10), - 2] = Inr (softmax [0, - (1 / 10), - 2] ! 0, [0])"
proof -
  have w: "widen (softmax [0, - (1 / 10), - 2]) (rev (argsort (softmax [0, - (1 / 10), - 2])))
     (softmax [0, - (1 / 10), - 2] ! (rev (argsort (softmax [0, - (1 / 10), - 2])) ! 0)) (1 / 2) 1 = Inr 2"
    using widen_example by (simp add: ranking_example)
  from accepted_vector_is_boundary_probability[OF w, of first_draw 0] w
  show ?thesis
    by (simp add: ranking_example first_draw_def getitem_def numeral_2_eq_2)
qed




lemma take_steps_prefix:
  assumes run: "take_steps categorical clock n g = (evs, items)"
  shows "k < length (model_inputs evs) \<Longrightarrow>
         concat (map fst (take (Suc k) (model_inputs evs))) = g_y g @ concat (map snd (take k items)) \<and>
         length (concat (map snd (take k items))) = k"
proof (induction k)
  case 0
  moreover have "length (model_inputs evs) \<le> n" using take_steps_inputs[OF run] by blast
  ultimately have "0 < n" by (cases "model_inputs evs") auto
  with take_steps_inputs[OF run] have "model_inputs evs \<noteq> []" "model_inputs evs ! 0 = (g_y g, g_cache g)"
    by simp_all
  then show ?case by (cases "model_inputs evs") simp_all
next
  case (Suc k)
  from take_steps_inputs[OF run] Suc.prems
  have k: "k < length items" "length (snd (items ! k)) = 1"
    "fst (model_inputs evs ! Suc k) = snd (items ! k)" by simp_all
  from Suc.prems have "k < length (model_inputs evs)" by simp
  note IH = Suc.IH[OF this]
  have "concat (map fst (take (Suc (Suc k)) (model_inputs evs))) =
        concat (map fst (take (Suc k) (model_inputs evs))) @ fst (model_inputs evs ! Suc k)"
    using Suc.prems by (simp add: take_Suc_conv_app_nth[of "Suc k"])
  moreover have "concat (map snd (take (Suc k) items)) = concat (map snd (take k items)) @ snd (items ! k)"
    using k(1) by (simp add: take_Suc_conv_app_nth)
  ultimately show ?case using IH k by simp
qed

section \<open>The claims about the generation loop and the driver\<close>

text \<open>
  Claim C3, as amended: the generation loop keeps no token sequence. Its
  first step calls the model with the prompt and no cache; every later step
  calls it with the one token sampled by the step before (an input of length
  1) and the cache the model returned at the step before. Each sampled token
  is so given to the model exactly once, in order: the inputs of the first
  \<open>k + 1\<close> steps, put end to end, are the prompt followed by the first \<open>k\<close>
  sampled tokens, \<open>length prompt + k\<close> tokens in all.
\<close>

theorem model_input_per_step:
  assumes "take_steps categorical clock n (generate_step prompt model cutoff) = (evs, items)"
    and "k < length (model_inputs evs)"
  shows "(k = 0 \<longrightarrow> model_inputs evs ! k = (prompt, None)) \<and>
         (0 < k \<longrightarrow>
            k - 1 < length items \<and>
            fst (model_inputs evs ! k) = snd (items ! (k - 1)) \<and>
            length (fst (model_inputs evs ! k)) = 1 \<and>
            (\<exists>logits cache.
               model (fst (model_inputs evs ! (k - 1))) (snd (model_inputs evs ! (k - 1))) = Inr (logits, cache) \<and>
               snd (model_inputs evs ! k) = Some cache)) \<and>
         concat (map fst (take (Suc k) (model_inputs evs))) = prompt @ concat (map snd (take k items)) \<and>
         length (concat (map fst (take (Suc k) (model_inputs evs)))) = length prompt + k"
proof (intro conjI impI)
  note inv = take_steps_inputs[OF assms(1)]
  from assms(2) inv have "0 < n" by auto
  with inv show "model_inputs evs ! k = (prompt, None)" if "k = 0" using that by simp
  {
    assume "0 < k"
    then obtain m where m: "k = Suc m" by (cases k) auto
    with inv assms(2) have
      "m < length items" "length (snd (items ! m)) = 1" "fst (model_inputs evs ! Suc m) = snd (items ! m)"
      "\<exists>logits cache. model (fst (model_inputs evs ! m)) (snd (model_inputs evs ! m)) = Inr (logits, cache) \<and>
         snd (model_inputs evs ! Suc m) = Some cache"
      by simp_all
    with m show "k - 1 < length items" "fst (model_inputs evs ! k) = snd (items ! (k - 1))"
      "length (fst (model_inputs evs ! k)) = 1"
      "\<exists>logits cache.
         model (fst (model_inputs evs ! (k - 1))) (snd (model_inputs evs ! (k - 1))) = Inr (logits, cache) \<and>
         snd (model_inputs evs ! k) = Some cache"
      by simp_all
  }
  from take_steps_prefix[OF assms] 
  show "concat (map fst (take (Suc k) (model_inputs evs))) = prompt @ concat (map snd (take k items))"
    "length (concat (map fst (take (Suc k) (model_inputs evs)))) = length prompt + k"
    by simp_all
qed

theorem model_input_per_step_witness:
  "take_steps first_draw ticks 2 (generate_step [7, 8, 9] stub_model (Some 0)) =
     ([ModelCall [7, 8, 9] None, SampleCall [0, 5, 0] 0,
       ModelCall [1] (Some ()), SampleCall [0, 0, 5] 0],
      [(softmax [0, 5, 0] ! 1, [1]), (softmax [0, 0, 5] ! 2, [2])]) \<and>
   model_inputs [ModelCall [7, 8, 9] None, SampleCall [0, 5, 0] 0,
       ModelCall [1] (Some ()), SampleCall [0, 0, 5 :: real] 0] ! 1 = ([1], Some ()) \<and>
   stub_model [7, 8, 9] None = Inr ([[0, 5, 0], [0, 5, 0], [0, 5, 0]], ()) \<and>
   concat (map fst (take 2 (model_inputs [ModelCall [7, 8, 9] None, SampleCall [0, 5, 0] 0,
       ModelCall [1] (Some ()), SampleCall [0, 0, 5 :: real] 0]))) = [7, 8, 9, 1]"
proof -
  have "stub_model [7, 8, 9] None = Inr ([[0, 5, 0], [0, 5, 0], [0, 5, 0]], ())"
    by (simp add: stub_model_def)
  with model_input_per_step[OF take_steps_stub, of 1] take_steps_stub
  show ?thesis by simp
qed

text \<open>
  Claim C3 as it was stated asks that the \<open>n\<close>-th step calls the model with
  the full sequence of \<open>length prompt + n - 1\<close> tokens. With a prompt of three
  tokens the second step gets one token, not four.
\<close>

theorem second_step_input_counterexample:
  "length (fst (model_inputs (fst (take_steps first_draw ticks 2
       (generate_step [7, 8, 9] stub_model (Some 0)))) ! 1)) = 1 \<and>
   length (fst (model_inputs (fst (take_steps first_draw ticks 2
       (generate_step [7, 8, 9] stub_model (Some 0)))) ! 1)) \<noteq> length [7, 8, 9 :: int] + 2 - 1"
  by (simp add: take_steps_stub)




lemma generate_run_stub_zero_budget:
  "generate_run first_draw ticks stub_model stub_tokenizer ''Hello'' None (Some 0) None =
     \<lparr>returned = Inr [], stdout = [], accumulated = [],
      events = [ModelCall [72, 101, 108, 108, 111] None, SampleCall [0, 5, 0] 0]\<rparr>"
proof -
  have enc: "encode stub_tokenizer ''Hello'' = [72, 101, 108, 108, 111]"
    by (simp add: stub_tokenizer_def)
  show ?thesis
    by (simp add: generate_run_def Let_def py_range_def enc next_step_stub_first decode_list_def
        stub_tokenizer_def)
qed

text \<open>
  Claim C2 says that the driver consumes at most \<open>max_tokens\<close> steps, stops at
  the first step whose token is the end-of-sequence id and returns the text
  without it. Whenever \<open>max_tokens\<close> is at least 1, \<^verbatim>\<open>generate\<close> returns no
  text at all: every call ends in an exception, whatever the model, the
  tokenizer, the prompt and the draws.
\<close>

theorem generate_never_returns:
  assumes "1 \<le> (case max_tokens of None \<Rightarrow> 100 | Some n \<Rightarrow> n)"
  shows "\<exists>e. generate categorical clock model tok prompt temp max_tokens verbose = Inl e"
  using generate_run_raises[OF assms] by (simp add: generate_def)

theorem generate_never_returns_witness:
  "(1 :: int) \<le> (case Some 10 of None \<Rightarrow> 100 | Some n \<Rightarrow> n) \<and>
   generate first_draw ticks stub_model stub_tokenizer ''Hello'' None (Some 10) None =
     Inl (AttributeError ''tuple object has no attribute item'')"
  using generate_never_returns[of "Some 10" first_draw ticks stub_model stub_tokenizer "''Hello''" None None]
  by (simp add: generate_def generate_run_stub)



lemma next_step_initial:
  "next_step categorical clock (generate_step prompt model (Some c)) =
     (case model prompt None of
        Inl e \<Rightarrow> ([ModelCall prompt None], Inl e)
      | Inr (logits, cache) \<Rightarrow>
          (case last_position logits of
             Inl e \<Rightarrow> ([ModelCall prompt None], Inl e)
           | Inr row \<Rightarrow>
               ([ModelCall prompt None, SampleCall row c],
                case sample categorical (clock 0) c row of
                  Inl e \<Rightarrow> Inl e
                | Inr (t0, y) \<Rightarrow>
                    Inr ((t0, y),
                         \<lparr>g_model = model, g_cutoff = c, g_y = y, g_cache = Some cache, g_draws = 1\<rparr>))))"
  by (simp add: next_step_def generate_step_def split: sum.splits prod.splits)

lemma generate_run_first_step_fails:
  assumes "next_step categorical clock
           (generate_step (encode tok prompt) model (Some (case temp of None \<Rightarrow> 0 | Some t \<Rightarrow> t)))
         = (evs, Inl e)"
  shows "generate_run categorical clock model tok prompt temp max_tokens verbose =
    \<lparr>returned = Inl e, stdout = [], accumulated = [], events = evs\<rparr>"
  using assms by (simp add: generate_run_def Let_def for_loop_step_fails)

lemma generate_run_empty_range:
  assumes "\<not> 1 \<le> (case max_tokens of None \<Rightarrow> 100 | Some n \<Rightarrow> n)"
    and "next_step categorical clock
           (generate_step (encode tok prompt) model (Some (case temp of None \<Rightarrow> 0 | Some t \<Rightarrow> t)))
         = (evs, Inr (yielded, g'))"
  shows "generate_run categorical clock model tok prompt temp max_tokens verbose =
    \<lparr>returned = Inr (decode tok []),
     stdout = (if (case verbose of None \<Rightarrow> False | Some b \<Rightarrow> b) then decode tok [] @ [CHR 0x0A] else []),
     accumulated = [], events = evs\<rparr>"
proof -
  from assms(1) have "py_range (case max_tokens of None \<Rightarrow> 100 | Some n \<Rightarrow> n) = []"
    by (simp add: py_range_def)
  with assms(2) show ?thesis
    by (simp add: generate_run_def Let_def decode_list_def)
qed


lemma sample_stub_wide: "sample first_draw seed 7 [0, 5, 0] = Inl IndexError"
  by (rule sample_wide_cutoff) simp_all

lemma encode_stub_hello: "encode stub_tokenizer ''Hello'' = [72, 101, 108, 108, 111]"
  by (simp add: stub_tokenizer_def)

lemma stub_model_hello:
  "stub_model [72, 101, 108, 108, 111] None =
     Inr ([[0, 5, 0], [0, 5, 0], [0, 5, 0], [0, 5, 0], [0, 5, 0]], ())"
  by (simp add: stub_model_def)

lemma next_step_stub_wide:
  "next_step first_draw ticks (generate_step [72, 101, 108, 108, 111] stub_model (Some 7)) =
     ([ModelCall [72, 101, 108, 108, 111] None, SampleCall [0, 5, 0] 7], Inl IndexError)"
  by (simp add: next_step_initial stub_model_hello last_position_def sample_stub_wide)

text \<open>
  Claim C8, as amended: in a call of \<^verbatim>\<open>generate\<close> with \<open>max_tokens\<close> at least
  1, when the first step of the generation loop yields, what the driver
  binds to \<open>token\<close> is the pair \<^verbatim>\<open>(t0, y)\<close>: it does not compare equal to the
  end-of-sequence id, \<^verbatim>\<open>.item()\<close> on it raises \<^verbatim>\<open>AttributeError\<close>, and the
  call ends with that exception in its first iteration, with nothing
  accumulated and nothing printed. When the first step raises instead (the
  model fails, or the sampler does), the call ends with that exception and
  the loop body is not entered; nothing is accumulated then either.
\<close>

theorem driver_first_iteration:
  assumes "1 \<le> (case max_tokens of None \<Rightarrow> 100 | Some n \<Rightarrow> n)"
  shows
    "(\<forall>evs e.
        next_step categorical clock
          (generate_step (encode tok prompt) model (Some (case temp of None \<Rightarrow> 0 | Some t \<Rightarrow> t)))
          = (evs, Inl e) \<longrightarrow>
        generate_run categorical clock model tok prompt temp max_tokens verbose =
          \<lparr>returned = Inl e, stdout = [], accumulated = [], events = evs\<rparr>) \<and>
     (\<forall>evs t0 y g'.
        next_step categorical clock
          (generate_step (encode tok prompt) model (Some (case temp of None \<Rightarrow> 0 | Some t \<Rightarrow> t)))
          = (evs, Inr ((t0, y), g')) \<longrightarrow>
        eq_int (PyTuple [PyFloat t0, MxArray y]) (eos_token_id tok) = Inr False \<and>
        item (PyTuple [PyFloat t0, MxArray y]) =
          Inl (AttributeError ''tuple object has no attribute item'') \<and>
        generate_run categorical clock model tok prompt temp max_tokens verbose =
          \<lparr>returned = Inl (AttributeError ''tuple object has no attribute item''),
           stdout = [], accumulated = [], events = evs\<rparr>)"
proof (intro conjI allI impI)
  fix evs e
  assume "next_step categorical clock
          (generate_step (encode tok prompt) model (Some (case temp of None \<Rightarrow> 0 | Some t \<Rightarrow> t)))
          = (evs, Inl e)"
  then show "generate_run categorical clock model tok prompt temp max_tokens verbose =
          \<lparr>returned = Inl e, stdout = [], accumulated = [], events = evs\<rparr>"
    by (rule generate_run_first_step_fails)
next
  fix evs t0 y g'
  assume "next_step categorical clock
          (generate_step (encode tok prompt) model (Some (case temp of None \<Rightarrow> 0 | Some t \<Rightarrow> t)))
          = (evs, Inr ((t0, y), g'))"
  then show "generate_run categorical clock model tok prompt temp max_tokens verbose =
          \<lparr>returned = Inl (AttributeError ''tuple object has no attribute item''),
           stdout = [], accumulated = [], events = evs\<rparr>"
    by (rule generate_run_body_fails[OF assms])
qed simp_all

theorem driver_first_iteration_witness:
  "next_step first_draw ticks
     (generate_step (encode (stub_tokenizer\<lparr>eos_token_id := 1\<rparr>) ''Hello'') stub_model (Some 0)) =
     ([ModelCall [72, 101, 108, 108, 111] None, SampleCall [0, 5, 0] 0],
      Inr ((softmax [0, 5, 0] ! 1, [1]),
           \<lparr>g_model = stub_model, g_cutoff = 0, g_y = [1], g_cache = Some (), g_draws = 1\<rparr>)) \<and>
   eq_int (PyTuple [PyFloat (softmax [0, 5, 0] ! 1), MxArray [1]])
     (eos_token_id (stub_tokenizer\<lparr>eos_token_id := 1\<rparr>)) = Inr False \<and>
   eq_int (MxArray [1]) (eos_token_id (stub_tokenizer\<lparr>eos_token_id := 1\<rparr>)) = Inr True \<and>
   generate_run first_draw ticks stub_model (stub_tokenizer\<lparr>eos_token_id := 1\<rparr>) ''Hello''
     None (Some 3) (Some True) =
     \<lparr>returned = Inl (AttributeError ''tuple object has no attribute item''),
      stdout = [], accumulated = [],
      events = [ModelCall [72, 101, 108, 108, 111] None, SampleCall [0, 5, 0] 0]\<rparr> \<and>
   next_step first_draw ticks
     (generate_step (encode stub_tokenizer ''Hello'') stub_model (Some 7)) =
     ([ModelCall [72, 101, 108, 108, 111] None, SampleCall [0, 5, 0] 7], Inl IndexError) \<and>
   generate_run first_draw ticks stub_model stub_tokenizer ''Hello'' (Some 7) (Some 3) None =
     \<lparr>returned = Inl IndexError, stdout = [], accumulated = [],
      events = [ModelCall [72, 101, 108, 108, 111] None, SampleCall [0, 5, 0] 7]\<rparr>"
proof -
  have budget: "1 \<le> (case Some 3 of None \<Rightarrow> 100 | Some n \<Rightarrow> (n :: int))" by simp
  have yields: "next_step first_draw ticks
     (generate_step (encode (stub_tokenizer\<lparr>eos_token_id := 1\<rparr>) ''Hello'') stub_model
        (Some (case None of None \<Rightarrow> 0 | Some t \<Rightarrow> t))) =
     ([ModelCall [72, 101, 108, 108, 111] None, SampleCall [0, 5, 0] 0],
      Inr ((softmax [0, 5, 0] ! 1, [1]),
           \<lparr>g_model = stub_model, g_cutoff = 0, g_y = [1], g_cache = Some (), g_draws = 1\<rparr>))"
    using next_step_stub_first[of 72 "[101, 108, 108, 111]"] by (simp add: stub_tokenizer_def)
  have raises: "next_step first_draw ticks
     (generate_step (encode stub_tokenizer ''Hello'') stub_model
        (Some (case Some 7 of None \<Rightarrow> 0 | Some t \<Rightarrow> t))) =
     ([ModelCall [72, 101, 108, 108, 111] None, SampleCall [0, 5, 0] 7], Inl IndexError)"
    by (simp add: encode_stub_hello next_step_stub_wide)
  from driver_first_iteration[OF budget, of first_draw ticks "stub_tokenizer\<lparr>eos_token_id := 1\<rparr>"
      "''Hello''" stub_model None "Some True"] yields
  have a: "eq_int (PyTuple [PyFloat (softmax [0, 5, 0] ! 1), MxArray [1]])
       (eos_token_id (stub_tokenizer\<lparr>eos_token_id := 1\<rparr>)) = Inr False \<and>
     generate_run first_draw ticks stub_model (stub_tokenizer\<lparr>eos_token_id := 1\<rparr>) ''Hello''
       None (Some 3) (Some True) =
     \<lparr>returned = Inl (AttributeError ''tuple object has no attribute item''),
      stdout = [], accumulated = [],
      events = [ModelCall [72, 101, 108, 108, 111] None, SampleCall [0, 5, 0] 0]\<rparr>"
    by blast
  from driver_first_iteration[OF budget, of first_draw ticks stub_tokenizer "''Hello''" stub_model
      "Some 7" None] raises
  have b: "generate_run first_draw ticks stub_model stub_tokenizer ''Hello'' (Some 7) (Some 3) None =
     \<lparr>returned = Inl IndexError, stdout = [], accumulated = [],
      events = [ModelCall [72, 101, 108, 108, 111] None, SampleCall [0, 5, 0] 7]\<rparr>"
    by blast
  from a b yields raises show ?thesis by simp
qed

text \<open>
  Claim C8 as it was stated has the loop body fail on its first iteration
  in every call with \<open>max_tokens\<close> at least 1. With \<open>temp = 7\<close> the sampler
  raises \<^verbatim>\<open>IndexError\<close> in the first step of the generator: nothing is
  yielded, and \<^verbatim>\<open>generate\<close> ends with \<^verbatim>\<open>IndexError\<close>, not with the
  \<^verbatim>\<open>AttributeError\<close> of the loop body.
\<close>

theorem first_step_raises_counterexample:
  "(1 :: int) \<le> 10 \<and>
   next_step first_draw ticks
     (generate_step (encode stub_tokenizer ''Hello'') stub_model (Some 7)) =
     ([ModelCall [72, 101, 108, 108, 111] None, SampleCall [0, 5, 0] 7], Inl IndexError) \<and>
   generate_run first_draw ticks stub_model stub_tokenizer ''Hello'' (Some 7) (Some 10) None =
     \<lparr>returned = Inl IndexError, stdout = [], accumulated = [],
      events = [ModelCall [72, 101, 108, 108, 111] None, SampleCall [0, 5, 0] 7]\<rparr> \<and>
   generate first_draw ticks stub_model stub_tokenizer ''Hello'' (Some 7) (Some 10) None \<noteq>
     Inl (AttributeError ''tuple object has no attribute item'')"
proof -
  have raises: "next_step first_draw ticks
     (generate_step (encode stub_tokenizer ''Hello'') stub_model
        (Some (case Some 7 of None \<Rightarrow> 0 | Some t \<Rightarrow> t))) =
     ([ModelCall [72, 101, 108, 108, 111] None, SampleCall [0, 5, 0] 7], Inl IndexError)"
    by (simp add: encode_stub_hello next_step_stub_wide)
  from generate_run_first_step_fails[OF raises, of "Some 10" None] raises
  show ?thesis by (simp add: generate_def)
qed

text \<open>
  Claim C9: in every call of \<^verbatim>\<open>generate\<close> the sampler is called with the
  \<open>temp\<close> argument of \<^verbatim>\<open>generate\<close> as its cutoff, \<open>0.0\<close> when \<open>temp\<close> is left
  out, and never with the default \<open>7.0\<close> that \<^verbatim>\<open>generate_step\<close> declares.
  The whole outcome of a call is given in closed form: the model is called
  once on the encoded prompt, the sampler once on the logits of the last
  position with cutoff \<open>temp\<close>, and what \<^verbatim>\<open>generate\<close> returns or raises is
  determined by the result of that one call of the sampler.
\<close>

theorem generate_forwards_temp_as_cutoff:
  "generate_run categorical clock model tok prompt temp max_tokens verbose =
     (case model (encode tok prompt) None of
        Inl e \<Rightarrow>
          \<lparr>returned = Inl e, stdout = [], accumulated = [],
           events = [ModelCall (encode tok prompt) None]\<rparr>
      | Inr (logits, cache) \<Rightarrow>
          (case last_position logits of
             Inl e \<Rightarrow>
               \<lparr>returned = Inl e, stdout = [], accumulated = [],
                events = [ModelCall (encode tok prompt) None]\<rparr>
           | Inr row \<Rightarrow>
               (case sample categorical (clock 0) (case temp of None \<Rightarrow> 0 | Some t \<Rightarrow> t) row of
                  Inl e \<Rightarrow>
                    \<lparr>returned = Inl e, stdout = [], accumulated = [],
                     events = [ModelCall (encode tok prompt) None,
                               SampleCall row (case temp of None \<Rightarrow> 0 | Some t \<Rightarrow> t)]\<rparr>
                | Inr (t0, y) \<Rightarrow>
                    if 1 \<le> (case max_tokens of None \<Rightarrow> 100 | Some n \<Rightarrow> n) then
                      \<lparr>returned = Inl (AttributeError ''tuple object has no attribute item''),
                       stdout = [], accumulated = [],
                       events = [ModelCall (encode tok prompt) None,
                                 SampleCall row (case temp of None \<Rightarrow> 0 | Some t \<Rightarrow> t)]\<rparr>
                    else
                      \<lparr>returned = Inr (decode tok []),
                       stdout = (if (case verbose of None \<Rightarrow> False | Some b \<Rightarrow> b)
                                 then decode tok [] @ [CHR 0x0A] else []),
                       accumulated = [],
                       events = [ModelCall (encode tok prompt) None,
                                 SampleCall row (case temp of None \<Rightarrow> 0 | Some t \<Rightarrow> t)]\<rparr>)))"
proof -
  let ?t = "case temp of None \<Rightarrow> 0 | Some t \<Rightarrow> t"
  let ?g = "generate_step (encode tok prompt) model (Some ?t)"
  note init = next_step_initial[of categorical clock "encode tok prompt" model ?t]
  show ?thesis
  proof (cases "model (encode tok prompt) None")
    case (Inl e)
    with init have "next_step categorical clock ?g = ([ModelCall (encode tok prompt) None], Inl e)"
      by simp
    from generate_run_first_step_fails[OF this] Inl show ?thesis by simp
  next
    case (Inr r)
    obtain logits cache where r: "r = (logits, cache)" by (cases r)
    show ?thesis
    proof (cases "last_position logits")
      case (Inl e)
      with init Inr r have "next_step categorical clock ?g = ([ModelCall (encode tok prompt) None], Inl e)"
        by simp
      from generate_run_first_step_fails[OF this] Inl Inr r show ?thesis by simp
    next
      case row: (Inr row)
      show ?thesis
      proof (cases "sample categorical (clock 0) ?t row")
        case (Inl e)
        with init Inr r row have "next_step categorical clock ?g =
            ([ModelCall (encode tok prompt) None, SampleCall row ?t], Inl e)"
          by simp
        from generate_run_first_step_fails[OF this] Inl Inr r row show ?thesis by simp
      next
        case s: (Inr p)
        obtain t0 y where p: "p = (t0, y)" by (cases p)
        from init Inr r row s p have step: "next_step categorical clock ?g =
            ([ModelCall (encode tok prompt) None, SampleCall row ?t],
             Inr ((t0, y),
               \<lparr>g_model = model, g_cutoff = ?t, g_y = y, g_cache = Some cache, g_draws = 1\<rparr>))"
          by simp
        show ?thesis
        proof (cases "1 \<le> (case max_tokens of None \<Rightarrow> 100 | Some n \<Rightarrow> n)")
          case True
          from generate_run_body_fails[OF True step] True Inr r row s p show ?thesis by simp
        next
          case False
          from generate_run_empty_range[OF False step] False Inr r row s p show ?thesis by simp
        qed
      qed
    qed
  qed
qed

theorem generate_forwards_temp_as_cutoff_witness:
  "generate_run first_draw ticks stub_model stub_tokenizer ''Hello'' None (Some 10) None =
     \<lparr>returned = Inl (AttributeError ''tuple object has no attribute item''),
      stdout = [], accumulated = [],
      events = [ModelCall [72, 101, 108, 108, 111] None, SampleCall [0, 5, 0] 0]\<rparr> \<and>
   sample first_draw (ticks 0) 0 [0, 5, 0] = Inr (softmax [0, 5, 0] ! 1, [1]) \<and>
   sample first_draw (ticks 0) 7 [0, 5, 0] = Inl IndexError \<and>
   g_cutoff (generate_step [72, 101, 108, 108, 111] stub_model None) = 7"
  using generate_forwards_temp_as_cutoff[of first_draw ticks stub_model stub_tokenizer "''Hello''"
      None "Some 10" None]
  by (simp add: encode_stub_hello stub_model_hello last_position_def sample_stub_first sample_stub_wide)




lemma open_json_missing:
  "open_json w path = Inl (FileNotFoundError m) \<longleftrightarrow> json_files w path = None \<and> m = no_such_file path"
  by (auto simp: open_json_def split: option.splits sum.splits)

lemma open_json_object:
  "open_json w path = Inr v \<longleftrightarrow> json_files w path = Some (Inr v)"
  by (auto simp: open_json_def split: option.splits sum.splits)



lemma get_classes_cases:
  "get_classes w config =
     (case map_of config ''model_type'' of
        None \<Rightarrow> ([], Inl (KeyError ''model_type''))
      | Some tag \<Rightarrow>
          if \<not> hashable tag then ([], Inl (TypeError ''unhashable type''))
          else
            (case lookup_arch tag of
               None \<Rightarrow>
                 ([LogError (''Model type '' @ py_str w tag @ '' not supported.'')],
                  Inl (ValueError (''Model type '' @ py_str w tag @ '' not supported.'')))
             | Some arch \<Rightarrow> ([], Inr arch)))"
  by (simp add: get_classes_def Let_def split: option.splits)


lemma get_classes_value_error:
  assumes "get_classes w config = (evs, Inl (ValueError m))"
  shows "LogError m \<in> set evs"
  using assms unfolding get_classes_cases
  by (auto split: option.splits if_splits)













section \<open>The claim about the loader\<close>




end
